theory Spec2Isabelle
  imports Main "HOL-Library.AList" "HOL-Library.Multiset" "HOL-Library.List_Lexorder"
    "HOL-Library.Product_Lexorder"
begin

section \<open>Strings and the Unicode tables\<close>

text \<open>
  A Python \<open>str\<close> is a sequence of Unicode code points, and the schedule sheets are Korean,
  so a string is a list of code points here (\<open>char\<close> is a byte). Dictionary keys and
  messages of the program itself are ASCII and stay \<open>string\<close>.
\<close>

type_synonym ustring = "nat list"

definition ascii :: "string \<Rightarrow> ustring" where
  "ascii s = map of_char s"

text \<open>
  The classes \<open>\w\<close>, \<open>\d\<close>, \<open>\s\<close> of \<open>re\<close>, \<open>str.strip\<close> and \<open>int\<close> read the Unicode
  character database of the interpreter, which is no part of the repository: it is a
  parameter of every function that reads it. \<open>digit_val c\<close> is the value of a decimal
  digit (category Nd), \<open>None\<close> for any other code point.
\<close>

record unicode =
  is_alnum :: "nat \<Rightarrow> bool"
  digit_val :: "nat \<Rightarrow> nat option"
  is_space :: "nat \<Rightarrow> bool"

definition is_word :: "unicode \<Rightarrow> nat \<Rightarrow> bool" where
  "is_word U c = (is_alnum U c \<or> c = 95)"

definition is_digit :: "unicode \<Rightarrow> nat \<Rightarrow> bool" where
  "is_digit U c = (digit_val U c \<noteq> None)"

text \<open>
  The tables on ASCII and on the Hangul syllables (U+AC00 to U+D7A3), with every white-space
  code point of Unicode; the concrete inputs below are evaluated with it and hold no other
  code point.
\<close>

definition hangul_ascii :: unicode where
  "hangul_ascii = \<lparr>
     is_alnum = (\<lambda>c. (48 \<le> c \<and> c \<le> 57) \<or> (65 \<le> c \<and> c \<le> 90) \<or> (97 \<le> c \<and> c \<le> 122)
                    \<or> (44032 \<le> c \<and> c \<le> 55203)),
     digit_val = (\<lambda>c. if 48 \<le> c \<and> c \<le> 57 then Some (c - 48) else None),
     is_space = (\<lambda>c. (9 \<le> c \<and> c \<le> 13) \<or> (28 \<le> c \<and> c \<le> 32) \<or> c = 133 \<or> c = 160
                    \<or> c = 5760 \<or> (8192 \<le> c \<and> c \<le> 8202) \<or> c = 8232 \<or> c = 8233
                    \<or> c = 8239 \<or> c = 8287 \<or> c = 12288) \<rparr>"

definition startswith :: "ustring \<Rightarrow> ustring \<Rightarrow> bool" where
  "startswith s b = (take (length b) s = b)"

text \<open>\<open>kw in s\<close>: \<open>kw\<close> occurs in \<open>s\<close> as a contiguous substring.\<close>

fun contains :: "ustring \<Rightarrow> ustring \<Rightarrow> bool" where
  "contains kw [] = (kw = [])"
| "contains kw (c # cs) = (startswith (c # cs) kw \<or> contains kw cs)"

text \<open>\<open>s.split(',')\<close>: the pieces between the commas, at least one piece.\<close>

fun split_comma :: "ustring \<Rightarrow> ustring list" where
  "split_comma [] = [[]]"
| "split_comma (c # cs) =
     (if c = 44 then [] # split_comma cs
      else (case split_comma cs of [] \<Rightarrow> [[c]] | p # ps \<Rightarrow> (c # p) # ps))"

definition strip :: "unicode \<Rightarrow> ustring \<Rightarrow> ustring" where
  "strip U s = rev (dropWhile (is_space U) (rev (dropWhile (is_space U) s)))"

text \<open>
  \<open>s.replace(b, '')\<close>: every occurrence of \<open>b\<close> is removed, scanning from the left and
  resuming after each removed occurrence. (For an empty \<open>b\<close> nothing is removed.)
\<close>

fun remove_all :: "ustring \<Rightarrow> nat \<Rightarrow> ustring \<Rightarrow> ustring" where
  "remove_all b k [] = []"
| "remove_all b (Suc k) (c # cs) = remove_all b k cs"
| "remove_all b 0 (c # cs) =
     (if b \<noteq> [] \<and> startswith (c # cs) b then remove_all b (length b - 1) cs
      else c # remove_all b 0 cs)"

definition replace_empty :: "ustring \<Rightarrow> ustring \<Rightarrow> ustring" where
  "replace_empty s b = remove_all b 0 s"

section \<open>The regular expressions of the parser\<close>

text \<open>
  The fragment of \<open>re\<close> that the two patterns use: a class of one character, a greedy
  repetition of a class (\<open>+\<close>, \<open>*\<close>, \<open>?\<close>, \<open>{n}\<close>), concatenation, alternation, a named
  group and \<open>$\<close>. \<open>rx_match\<close> lists every way the pattern matches a prefix of the text, as the
  groups and the text left over, in the order in which the backtracking matcher of \<open>re\<close>
  tries them; the match \<open>re\<close> reports is the first.
\<close>

datatype rx =
    Eps
  | Cls "nat \<Rightarrow> bool"
  | Rep "nat \<Rightarrow> bool" nat "nat option"
  | Seq rx rx
  | Alt rx rx
  | Grp string rx
  | Eos

type_synonym groups = "(string \<times> ustring) list"

text \<open>
  \<open>rep_match P lo hi s\<close>: the texts left after between \<open>lo\<close> and \<open>hi\<close> characters of class
  \<open>P\<close>, the longest run first.
\<close>

fun rep_match :: "(nat \<Rightarrow> bool) \<Rightarrow> nat \<Rightarrow> nat option \<Rightarrow> ustring \<Rightarrow> ustring list" where
  "rep_match P lo hi [] = (if lo = 0 then [[]] else [])"
| "rep_match P lo hi (c # cs) =
     (if P c \<and> hi \<noteq> Some 0
      then rep_match P (lo - 1) (map_option (\<lambda>n. n - 1) hi) cs @ (if lo = 0 then [c # cs] else [])
      else (if lo = 0 then [c # cs] else []))"

fun rx_match :: "rx \<Rightarrow> groups \<Rightarrow> ustring \<Rightarrow> (groups \<times> ustring) list" where
  "rx_match Eps g s = [(g, s)]"
| "rx_match (Cls P) g s = (case s of [] \<Rightarrow> [] | c # cs \<Rightarrow> if P c then [(g, cs)] else [])"
| "rx_match (Rep P lo hi) g s = map (\<lambda>r. (g, r)) (rep_match P lo hi s)"
| "rx_match (Seq r1 r2) g s = concat (map (\<lambda>(g1, s1). rx_match r2 g1 s1) (rx_match r1 g s))"
| "rx_match (Alt r1 r2) g s = rx_match r1 g s @ rx_match r2 g s"
| "rx_match (Grp n r) g s =
     map (\<lambda>(g1, s1). (AList.update n (take (length s - length s1) s) g1, s1)) (rx_match r g s)"
| "rx_match Eos g s = (if s = [] \<or> s = [10] then [(g, s)] else [])"

definition match_here :: "rx \<Rightarrow> ustring \<Rightarrow> (groups \<times> ustring) option" where
  "match_here r s = (case rx_match r [] s of [] \<Rightarrow> None | m # _ \<Rightarrow> Some m)"

text \<open>\<open>re.search\<close>: the match at the leftmost position that has one; its groups.\<close>

fun re_search :: "rx \<Rightarrow> ustring \<Rightarrow> groups option" where
  "re_search r [] = map_option fst (match_here r [])"
| "re_search r (c # cs) =
     (case match_here r (c # cs) of Some m \<Rightarrow> Some (fst m) | None \<Rightarrow> re_search r cs)"

text \<open>
  \<open>re.finditer\<close>: the matches from left to right, each search resuming where the match
  before it ended. \<open>skip\<close> counts the characters of the last match still to pass. (A match
  of \<open>time_pattern\<close> is never empty, so the rules of \<open>re\<close> for empty matches are not needed;
  an empty match would count as one character here.)
\<close>

fun finditer_from :: "rx \<Rightarrow> nat \<Rightarrow> ustring \<Rightarrow> groups list" where
  "finditer_from r skip [] = []"
| "finditer_from r (Suc skip) (c # cs) = finditer_from r skip cs"
| "finditer_from r 0 (c # cs) =
     (case match_here r (c # cs) of
        None \<Rightarrow> finditer_from r 0 cs
      | Some (g, rest) \<Rightarrow> g # finditer_from r (length (c # cs) - length rest - 1) cs)"

definition re_finditer :: "rx \<Rightarrow> ustring \<Rightarrow> groups list" where
  "re_finditer r s = finditer_from r 0 s"

fun seqs :: "rx list \<Rightarrow> rx" where
  "seqs [] = Eps"
| "seqs (r # rs) = Seq r (seqs rs)"

definition lit :: "nat \<Rightarrow> rx" where
  "lit c = Cls (\<lambda>x. x = c)"

text \<open>
  \<^verbatim>\<open>(?P<day>\w+)\s*\[(?P<start_end>\d+~?\d*)\]\s*(?P<start_time>\d{2}:\d{2})~(?P<end_time>\d{2}:\d{2})\<close>
\<close>

definition hhmm_rx :: "unicode \<Rightarrow> rx" where
  "hhmm_rx U = seqs [Rep (is_digit U) 2 (Some 2), lit 58, Rep (is_digit U) 2 (Some 2)]"

definition time_pattern :: "unicode \<Rightarrow> rx" where
  "time_pattern U = seqs
     [Grp ''day'' (Rep (is_word U) 1 None),
      Rep (is_space U) 0 None,
      lit 91,
      Grp ''start_end'' (seqs [Rep (is_digit U) 1 None, Rep (\<lambda>c. c = 126) 0 (Some 1),
                               Rep (is_digit U) 0 None]),
      lit 93,
      Rep (is_space U) 0 None,
      Grp ''start_time'' (hhmm_rx U),
      lit 126,
      Grp ''end_time'' (hhmm_rx U)]"

text \<open>\<^verbatim>\<open>\((?P<room>.+)\)$\<close>; the dot is any character but a newline.\<close>

definition room_pattern :: rx where
  "room_pattern = seqs [lit 40, Grp ''room'' (Rep (\<lambda>c. c \<noteq> 10) 1 None), lit 41, Eos]"

section \<open>LectureParser\<close>

datatype error = ValueError string | KeyError string | TypeError string

text \<open>
  One parsed segment is a Python dictionary: its keys in the order of insertion, \<open>None\<close> as
  a value being Python's \<open>None\<close>.
\<close>

type_synonym entry = "(string \<times> ustring option) list"

text \<open>The exclusion keywords: online, unassigned, research room.\<close>

definition exclusion_keywords :: "ustring list" where
  "exclusion_keywords = [[50728, 46972, 51064], [48120, 48176, 51221], [50672, 44396, 49892]]"

text \<open>The loop over \<open>result\<close> that attaches the rooms; it raises inside the loop body.\<close>

fun assign_rooms :: "unicode \<Rightarrow> ustring list \<Rightarrow> entry list \<Rightarrow> error + entry list" where
  "assign_rooms U room_list [] = Inr []"
| "assign_rooms U room_list (entry # rest) =
     (let e1 = AList.update ''room_a''
                 (if length room_list > 0 then Some (strip U (room_list ! 0)) else None) entry;
          e2 = AList.update ''room_b''
                 (if length room_list > 1 then Some (strip U (room_list ! 1)) else None) e1
      in if length room_list > 2 then Inl (ValueError ''room is more than 2'')
         else (case assign_rooms U room_list rest of
                 Inl e \<Rightarrow> Inl e
               | Inr es \<Rightarrow> Inr (e2 # es)))"

definition parse_lecture_time :: "unicode \<Rightarrow> ustring \<Rightarrow> error + entry list" where
  "parse_lecture_time U lecture_time =
     (let result = map (\<lambda>m. [(''day'', map_of m ''day''),
                               (''start_time'', map_of m ''start_time''),
                               (''end_time'', map_of m ''end_time''),
                               (''room'', None)])
                       (re_finditer (time_pattern U) lecture_time)
      in case re_search room_pattern lecture_time of
           None \<Rightarrow> Inr result
         | Some room_match \<Rightarrow>
             (case map_of room_match ''room'' of
                None \<Rightarrow> Inl (TypeError ''argument of type NoneType is not iterable'')
              | Some room_info \<Rightarrow>
                  if list_ex (\<lambda>keyword. contains keyword room_info) exclusion_keywords then Inr []
                  else assign_rooms U (split_comma room_info) result))"

text \<open>
  A row of the sheet: the description column and whatever else the sheet holds. A row of
  the expanded frame: the row it copies and the five columns set on the copy, \<open>Day\<close>,
  \<open>Free From\<close>, \<open>Free To\<close>, \<open>RoomA\<close>, \<open>RoomB\<close> (prefixed here, since the table of free
  rooms has columns of the same names).
\<close>

record 'a raw_row =
  lecture_time :: ustring
  passthrough :: 'a

record 'a expanded_row =
  source :: "'a raw_row"
  e_Day :: "ustring option"
  e_Free_From :: "ustring option"
  e_Free_To :: "ustring option"
  e_RoomA :: "ustring option"
  e_RoomB :: "ustring option"

text \<open>\<open>d[key]\<close>: a missing key raises \<open>KeyError\<close>.\<close>

definition getitem :: "entry \<Rightarrow> string \<Rightarrow> error + ustring option" where
  "getitem d k = (case map_of d k of None \<Rightarrow> Inl (KeyError k) | Some v \<Rightarrow> Inr v)"

definition new_row :: "'a raw_row \<Rightarrow> entry \<Rightarrow> error + 'a expanded_row" where
  "new_row row parsed_time =
     (case getitem parsed_time ''day'' of Inl e \<Rightarrow> Inl e | Inr d \<Rightarrow>
     (case getitem parsed_time ''start_time'' of Inl e \<Rightarrow> Inl e | Inr st \<Rightarrow>
     (case getitem parsed_time ''end_time'' of Inl e \<Rightarrow> Inl e | Inr en \<Rightarrow>
     (case getitem parsed_time ''room_a'' of Inl e \<Rightarrow> Inl e | Inr ra \<Rightarrow>
     (case getitem parsed_time ''room_b'' of Inl e \<Rightarrow> Inl e | Inr rb \<Rightarrow>
        Inr \<lparr>source = row, e_Day = d, e_Free_From = st, e_Free_To = en,
             e_RoomA = ra, e_RoomB = rb\<rparr>)))))"

fun expand_parsed :: "'a raw_row \<Rightarrow> entry list \<Rightarrow> error + 'a expanded_row list" where
  "expand_parsed row [] = Inr []"
| "expand_parsed row (parsed_time # rest) =
     (case new_row row parsed_time of
        Inl e \<Rightarrow> Inl e
      | Inr r \<Rightarrow> (case expand_parsed row rest of Inl e \<Rightarrow> Inl e | Inr rs \<Rightarrow> Inr (r # rs)))"

fun expand_lecture_times :: "unicode \<Rightarrow> 'a raw_row list \<Rightarrow> error + 'a expanded_row list" where
  "expand_lecture_times U [] = Inr []"
| "expand_lecture_times U (row # df) =
     (case parse_lecture_time U (lecture_time row) of
        Inl e \<Rightarrow> Inl e
      | Inr parsed_times \<Rightarrow>
          (case expand_parsed row parsed_times of
             Inl e \<Rightarrow> Inl e
           | Inr rs \<Rightarrow> (case expand_lecture_times U df of
                          Inl e \<Rightarrow> Inl e
                        | Inr others \<Rightarrow> Inr (rs @ others))))"

section \<open>RoomScheduler\<close>

text \<open>
  \<open>datetime.strptime(s, '%H:%M')\<close> gives a moment of 1 January 1900; such moments are
  compared and subtracted only among themselves, so a moment is its minute of the day.
  The format compiles to the pattern
  \<^verbatim>\<open>(?P<H>2[0-3]|[0-1]\d|\d):(?P<M>[0-5]\d|\d)\<close>,
  matched at the start of the text; text left over, a field \<open>int\<close> cannot read and an
  hour or minute that \<open>datetime\<close> refuses all raise \<open>ValueError\<close>, which is \<open>None\<close> here.
\<close>

type_synonym interval = "nat \<times> nat"

definition strptime_rx :: "unicode \<Rightarrow> rx" where
  "strptime_rx U = seqs
     [Grp ''H'' (Alt (seqs [lit 50, Cls (\<lambda>c. 48 \<le> c \<and> c \<le> 51)])
                (Alt (seqs [Cls (\<lambda>c. 48 \<le> c \<and> c \<le> 49), Cls (is_digit U)])
                     (Cls (is_digit U)))),
      lit 58,
      Grp ''M'' (Alt (seqs [Cls (\<lambda>c. 48 \<le> c \<and> c \<le> 53), Cls (is_digit U)])
                     (Cls (is_digit U)))]"

fun py_int_from :: "unicode \<Rightarrow> nat \<Rightarrow> ustring \<Rightarrow> nat option" where
  "py_int_from U acc [] = Some acc"
| "py_int_from U acc (c # cs) =
     (case digit_val U c of None \<Rightarrow> None | Some v \<Rightarrow> py_int_from U (10 * acc + v) cs)"

definition py_int :: "unicode \<Rightarrow> ustring option \<Rightarrow> nat option" where
  "py_int U t = (case t of None \<Rightarrow> None | Some [] \<Rightarrow> None | Some ds \<Rightarrow> py_int_from U 0 ds)"

definition strptime_HM :: "unicode \<Rightarrow> ustring \<Rightarrow> nat option" where
  "strptime_HM U s =
     (case match_here (strptime_rx U) s of
        None \<Rightarrow> None
      | Some (found, rest) \<Rightarrow>
          if rest \<noteq> [] then None
          else (case py_int U (map_of found ''H'') of
                  None \<Rightarrow> None
                | Some h \<Rightarrow>
                    (case py_int U (map_of found ''M'') of
                       None \<Rightarrow> None
                     | Some m \<Rightarrow> if h < 24 \<and> m < 60 then Some (60 * h + m) else None)))"

text \<open>\<open>t.strftime('%H%M')\<close>: hour and minute, two digits each.\<close>

definition strftime_HM :: "nat \<Rightarrow> ustring" where
  "strftime_HM t =
     [48 + (t div 60) div 10, 48 + (t div 60) mod 10, 48 + (t mod 60) div 10, 48 + (t mod 60) mod 10]"

text \<open>
  \<open>self.buildings\<close> and \<open>self.days\<close> (Monday to Saturday), as \<open>__init__\<close> sets them.
\<close>

definition buildings :: "ustring list" where
  "buildings = [[65, 46041], [66, 46041], [67, 46041], [68, 46041], [69, 46041], [70, 46041],
                [71, 46041], [51333, 54633], [84, 73, 80], [49328, 50997], [48708, 51592]]"

definition days :: "ustring list" where
  "days = [[50900], [54868], [49688], [47785], [44552], [53664]]"

text \<open>
  \<open>self.room_schedule\<close>: building, then room number, then day, then the booked intervals
  in the order they were appended. A dictionary keeps its keys in insertion order, and
  assigning to a key it has keeps the key's place: \<open>AList.update\<close>. A day is whatever the
  \<open>Day\<close> column holds, \<open>None\<close> included.
\<close>

type_synonym day_schedule = "(ustring option \<times> interval list) list"
type_synonym room_index = "(ustring \<times> (ustring \<times> day_schedule) list) list"

record 'a scheduler =
  df :: "'a expanded_row list"
  room_schedule :: room_index

definition RoomScheduler :: "'a expanded_row list \<Rightarrow> 'a scheduler" where
  "RoomScheduler frame = \<lparr>df = frame, room_schedule = []\<rparr>"

definition get_or :: "('k \<times> 'v) list \<Rightarrow> 'k \<Rightarrow> 'v \<Rightarrow> 'v" where
  "get_or d k dflt = (case map_of d k of None \<Rightarrow> dflt | Some v \<Rightarrow> v)"

definition resolve_building :: "ustring \<Rightarrow> ustring option" where
  "resolve_building single_room = List.find (startswith single_room) buildings"

definition room_number_of :: "unicode \<Rightarrow> ustring \<Rightarrow> ustring \<Rightarrow> ustring" where
  "room_number_of U single_room building = strip U (replace_empty single_room building)"

text \<open>
  The body of the innermost loop of \<open>extract_room_schedule\<close>, for one entry of one room
  column: the three dictionaries are created where missing before the times are read, so
  a time that does not parse leaves the (possibly new, empty) list in place. A time that is
  \<open>None\<close> is no string, and \<open>strptime\<close> raises \<open>TypeError\<close>, which is not caught.
\<close>

definition put_booked ::
  "room_index \<Rightarrow> ustring \<Rightarrow> ustring \<Rightarrow> ustring option \<Rightarrow> interval list \<Rightarrow> room_index" where
  "put_booked sched building room_number day booked =
     (let rooms = get_or sched building [];
          schedule = get_or rooms room_number []
      in AList.update building
           (AList.update room_number (AList.update day booked schedule) rooms) sched)"

definition booked_of ::
  "room_index \<Rightarrow> ustring \<Rightarrow> ustring \<Rightarrow> ustring option \<Rightarrow> interval list" where
  "booked_of sched building room_number day =
     get_or (get_or (get_or sched building []) room_number []) day []"

definition book_room ::
  "unicode \<Rightarrow> 'a expanded_row \<Rightarrow> room_index \<Rightarrow> ustring \<Rightarrow> error + room_index" where
  "book_room U row sched piece =
     (let single_room = strip U piece in
      case resolve_building single_room of
        None \<Rightarrow> Inr sched
      | Some building \<Rightarrow>
          (let room_number = room_number_of U single_room building;
               day = e_Day row;
               booked = booked_of sched building room_number day;
               sched1 = put_booked sched building room_number day booked
           in case e_Free_From row of
                None \<Rightarrow> Inl (TypeError ''strptime() argument 1 must be str, not None'')
              | Some start_time \<Rightarrow>
                  (case strptime_HM U start_time of
                     None \<Rightarrow> Inr sched1
                   | Some start_dt \<Rightarrow>
                       (case e_Free_To row of
                          None \<Rightarrow> Inl (TypeError ''strptime() argument 1 must be str, not None'')
                        | Some end_time \<Rightarrow>
                            (case strptime_HM U end_time of
                               None \<Rightarrow> Inr sched1
                             | Some end_dt \<Rightarrow>
                                 Inr (put_booked sched1 building room_number day
                                        (booked @ [(start_dt, end_dt)])))))))"

fun book_rooms ::
  "unicode \<Rightarrow> 'a expanded_row \<Rightarrow> room_index \<Rightarrow> ustring list \<Rightarrow> error + room_index" where
  "book_rooms U row sched [] = Inr sched"
| "book_rooms U row sched (piece # pieces) =
     (case book_room U row sched piece of
        Inl e \<Rightarrow> Inl e
      | Inr sched1 \<Rightarrow> book_rooms U row sched1 pieces)"

text \<open>One room column of one row: a missing room (\<open>pd.isna\<close>) is passed over.\<close>

definition book_column ::
  "unicode \<Rightarrow> 'a expanded_row \<Rightarrow> room_index \<Rightarrow> ustring option \<Rightarrow> error + room_index" where
  "book_column U row sched room =
     (case room of None \<Rightarrow> Inr sched | Some r \<Rightarrow> book_rooms U row sched (split_comma r))"

fun extract_rows ::
  "unicode \<Rightarrow> room_index \<Rightarrow> 'a expanded_row list \<Rightarrow> error + room_index" where
  "extract_rows U sched [] = Inr sched"
| "extract_rows U sched (row # rows) =
     (case book_column U row sched (e_RoomA row) of
        Inl e \<Rightarrow> Inl e
      | Inr sched1 \<Rightarrow>
          (case book_column U row sched1 (e_RoomB row) of
             Inl e \<Rightarrow> Inl e
           | Inr sched2 \<Rightarrow> extract_rows U sched2 rows))"

definition extract_room_schedule :: "unicode \<Rightarrow> 'a scheduler \<Rightarrow> error + 'a scheduler" where
  "extract_room_schedule U self =
     (case extract_rows U (room_schedule self) (df self) of
        Inl e \<Rightarrow> Inl e
      | Inr sched \<Rightarrow> Inr (self\<lparr>room_schedule := sched\<rparr>))"

text \<open>
  The free times of one room on one day, lines 98 to 117 of \<open>find_empty_rooms\<close>: the
  booked times are sorted by their start (the sort of Python is stable, as \<open>sort_key\<close> is),
  then swept. \<open>free_end - free_start\<close> is taken only where \<open>free_start < free_end\<close>.
\<close>

definition operating_start :: nat where
  "operating_start = 9 * 60 + 30"

definition operating_end :: nat where
  "operating_end = 22 * 60"

definition min_free_duration :: nat where
  "min_free_duration = 30"

fun sweep :: "nat \<Rightarrow> interval list \<Rightarrow> interval list" where
  "sweep current_time [] =
     (if current_time < operating_end
      then (if operating_end - current_time \<ge> min_free_duration
            then [(current_time, operating_end)] else [])
      else [])"
| "sweep current_time ((start, end) # rest) =
     (if current_time < start
      then (if start - current_time \<ge> min_free_duration then [(current_time, start)] else [])
      else [])
     @ sweep (max current_time end) rest"

definition free_times :: "interval list \<Rightarrow> interval list" where
  "free_times booked =
     (let booked_times = sort_key fst booked
      in if booked_times = [] then [(operating_start, operating_end)]
         else sweep operating_start booked_times)"

text \<open>Two half-open intervals overlap when they share a moment.\<close>

definition overlaps :: "interval \<Rightarrow> interval \<Rightarrow> bool" where
  "overlaps f b = (max (fst f) (fst b) < min (snd f) (snd b))"

text \<open>A row of the table of free rooms, as written to and read from the CSV file.\<close>

record ('r, 't) room_row =
  Building :: ustring
  Room_Number :: 'r
  Day :: ustring
  Free_From :: 't
  Free_To :: 't

definition day_rows ::
  "ustring \<Rightarrow> ustring \<Rightarrow> day_schedule \<Rightarrow> ustring \<Rightarrow> (ustring, ustring) room_row list" where
  "day_rows building room_number schedule day =
     map (\<lambda>(free_start, free_end).
            \<lparr>Building = building, Room_Number = room_number, Day = day,
             Free_From = strftime_HM free_start, Free_To = strftime_HM free_end\<rparr>)
         (free_times (get_or schedule (Some day) []))"

definition room_rows ::
  "ustring \<Rightarrow> ustring \<times> day_schedule \<Rightarrow> (ustring, ustring) room_row list" where
  "room_rows building room = concat (map (day_rows building (fst room) (snd room)) days)"

definition building_rows ::
  "ustring \<times> (ustring \<times> day_schedule) list \<Rightarrow> (ustring, ustring) room_row list" where
  "building_rows b = concat (map (room_rows (fst b)) (snd b))"

definition empty_rooms :: "room_index \<Rightarrow> (ustring, ustring) room_row list" where
  "empty_rooms sched = concat (map building_rows sched)"

text \<open>
  \<open>booked_times.sort\<close> sorts the list held by the index where the day has one: the index
  after \<open>find_empty_rooms\<close>.
\<close>

definition sort_booked :: "room_index \<Rightarrow> room_index" where
  "sort_booked sched =
     map (\<lambda>(building, rooms).
            (building, map (\<lambda>(room_number, schedule).
               (room_number, map (\<lambda>(day, booked).
                  (day, if day \<in> Some ` set days then sort_key fst booked else booked))
                  schedule)) rooms)) sched"

definition find_empty_rooms ::
  "unicode \<Rightarrow> 'a scheduler \<Rightarrow> error + 'a scheduler \<times> (ustring, ustring) room_row list" where
  "find_empty_rooms U self =
     (case extract_room_schedule U self of
        Inl e \<Rightarrow> Inl e
      | Inr self1 \<Rightarrow>
          Inr (self1\<lparr>room_schedule := sort_booked (room_schedule self1)\<rparr>,
               empty_rooms (room_schedule self1)))"



section \<open>EmptyRoomSchedule\<close>

text \<open>
  The consumer of the table: \<open>df\<close> is the frame it holds, \<open>_original\<close> the copy taken when it
  was loaded. The times are the integers \<open>read_csv\<close> makes of the \<open>HHMM\<close> columns.
\<close>

record 'r empty_room_schedule =
  held :: "('r, int) room_row list"
  original :: "('r, int) room_row list"

definition EmptyRoomSchedule :: "('r, int) room_row list \<Rightarrow> 'r empty_room_schedule" where
  "EmptyRoomSchedule loaded = \<lparr>held = loaded, original = loaded\<rparr>"

text \<open>
  \<open>if building:\<close> is false for \<open>None\<close> and for the empty string. The result is the new
  state; the frame returned is its \<open>held\<close>.
\<close>

definition condition ::
  "ustring \<Rightarrow> int \<Rightarrow> int \<Rightarrow> ustring option \<Rightarrow> ('r, int) room_row \<Rightarrow> bool" where
  "condition day from_time to_time building r =
     ((Day r = day \<and> Free_From r \<le> from_time \<and> Free_To r \<ge> to_time)
      \<and> (case building of None \<Rightarrow> True | Some b \<Rightarrow> if b = [] then True else Building r = b))"

definition filter_classrooms ::
  "ustring \<Rightarrow> int \<Rightarrow> int \<Rightarrow> ustring option \<Rightarrow> 'r empty_room_schedule \<Rightarrow> 'r empty_room_schedule" where
  "filter_classrooms day from_time to_time building self =
     self\<lparr>held := filter (condition day from_time to_time building) (held self)\<rparr>"

definition restore_classrooms :: "'r empty_room_schedule \<Rightarrow> 'r empty_room_schedule" where
  "restore_classrooms self = self\<lparr>held := original self\<rparr>"

section \<open>What holds of the index and of the table\<close>

text \<open>
  The predicates the theorems below are stated with; none of them is code of the program.
  Every time \<open>strptime\<close> returns is a minute of the day, and a dictionary has each key once.
\<close>

definition times_ok_booked :: "interval list \<Rightarrow> bool" where
  "times_ok_booked booked = list_all (\<lambda>(s, e). s < 1440 \<and> e < 1440) booked"

definition times_ok_schedule :: "day_schedule \<Rightarrow> bool" where
  "times_ok_schedule schedule = list_all (\<lambda>(day, booked). times_ok_booked booked) schedule"

definition rooms_ok :: "(ustring \<times> day_schedule) list \<Rightarrow> bool" where
  "rooms_ok rooms =
     (distinct (map fst rooms) \<and> list_all (\<lambda>(room_number, schedule). times_ok_schedule schedule) rooms)"

definition index_ok :: "room_index \<Rightarrow> bool" where
  "index_ok sched =
     (distinct (map fst sched) \<and> list_all (\<lambda>(building, rooms). rooms_ok rooms) sched)"



text \<open>
  \<open>current_time\<close> after the loop of \<open>find_empty_rooms\<close> has passed over some bookings: the
  latest of the time it had before and of their ends.
\<close>

fun cursor_after :: "nat \<Rightarrow> interval list \<Rightarrow> nat" where
  "cursor_after current_time [] = current_time"
| "cursor_after current_time ((start, end) # rest) = cursor_after (max current_time end) rest"

text \<open>
  Overlap-collapsing, in the words of the specification and not from the code: two bookings
  of which the second starts within the first, or where the first ends (they overlap, or
  one lies in the other, or they touch), are replaced by their union, which stands where
  the one with the earlier start stood; the other bookings stay as they are, whatever
  they are. Where no booking ends before it starts, the bookings may also be put in any
  order, so that the union may stand anywhere. Collapsing a set of bookings is a sequence
  of such steps.
\<close>

inductive collapse :: "interval list \<Rightarrow> interval list \<Rightarrow> bool" where
  earlier: "a \<le> c \<Longrightarrow> c \<le> b \<Longrightarrow>
     collapse (pre @ (a, b) # mid @ (c, d) # post) (pre @ (a, max b d) # mid @ post)"
| later: "a < c \<Longrightarrow> c \<le> b \<Longrightarrow>
     collapse (pre @ (c, d) # mid @ (a, b) # post) (pre @ mid @ (a, max b d) # post)"
| reorder: "mset xs = mset ys \<Longrightarrow> list_all (\<lambda>(start, end). start \<le> end) xs \<Longrightarrow>
     collapse xs ys"

section \<open>The parser on descriptions\<close>

lemmas rx_eval = time_pattern_def hhmm_rx_def room_pattern_def lit_def match_here_def
  re_finditer_def hangul_ascii_def is_word_def is_digit_def ascii_def

lemmas parse_eval = rx_eval parse_lecture_time_def exclusion_keywords_def startswith_def
  strip_def new_row_def getitem_def

text \<open>
  Without a room list the entries keep the keys they were created with, \<open>room_a\<close> and
  \<open>room_b\<close> are never set, and the first entry stops the expansion of the whole frame.
\<close>

lemma no_room_list_raises:
  assumes "re_search room_pattern s = None" and "re_finditer (time_pattern U) s \<noteq> []"
  shows "expand_lecture_times U (\<lparr>lecture_time = s, passthrough = p\<rparr> # frame)
    = Inl (KeyError ''room_a'')"
proof -
  obtain g gs where "re_finditer (time_pattern U) s = g # gs"
    using assms(2) by (cases "re_finditer (time_pattern U) s") auto
  with assms(1) show ?thesis
    by (simp add: parse_lecture_time_def new_row_def getitem_def)
qed

text \<open>
  C1, at the description \<open>"\<dots>[1~2] 09:00~10:15"\<close> (Monday, no room list): the parser returns
  one entry, with the key \<open>room\<close> set to \<open>None\<close> and no key \<open>room_a\<close> or \<open>room_b\<close>, and
  \<open>expand_lecture_times\<close> raises \<open>KeyError\<close> where it reads \<open>parsed_time['room_a']\<close>: no
  expanded record is produced.
\<close>

theorem expand_without_room_list_raises:
  "parse_lecture_time hangul_ascii ([50900] @ ascii ''[1~2] 09:00~10:15'')
     = Inr [[(''day'', Some [50900]), (''start_time'', Some (ascii ''09:00'')),
             (''end_time'', Some (ascii ''10:15'')), (''room'', None)]]
   \<and> expand_lecture_times hangul_ascii
       [\<lparr>lecture_time = [50900] @ ascii ''[1~2] 09:00~10:15'', passthrough = ()\<rparr>]
     = Inl (KeyError ''room_a'')"
  by (simp add: parse_eval)

text \<open>
  The check of the number of rooms stands in the loop over the parsed segments: with a
  segment before it, a list of three or more rooms raises.
\<close>

lemma three_rooms_after_segment_raise:
  assumes "re_finditer (time_pattern U) s \<noteq> []"
    and "re_search room_pattern s = Some m" and "map_of m ''room'' = Some room_info"
    and "\<not> list_ex (\<lambda>keyword. contains keyword room_info) exclusion_keywords"
    and "length (split_comma room_info) > 2"
  shows "parse_lecture_time U s = Inl (ValueError ''room is more than 2'')"
proof -
  obtain g gs where "re_finditer (time_pattern U) s = g # gs"
    using assms(1) by (cases "re_finditer (time_pattern U) s") auto
  with assms(2-5) show ?thesis
    by (simp add: parse_lecture_time_def Let_def)
qed

text \<open>
  C2, at the description \<open>"(A101, A102, A103)"\<close>: three rooms and no exclusion keyword, yet
  the parser returns the empty list and the row is expanded to nothing, without an error:
  with no segment the loop that holds the check never runs.
\<close>

theorem three_rooms_without_segment_pass:
  "parse_lecture_time hangul_ascii (ascii ''(A101, A102, A103)'') = Inr []
   \<and> expand_lecture_times hangul_ascii
       [\<lparr>lecture_time = ascii ''(A101, A102, A103)'', passthrough = ()\<rparr>] = Inr []"
  by (simp add: parse_eval)

text \<open>
  C3. When the room list that \<open>room_pattern\<close> finds in a description contains an exclusion
  keyword, the parser returns the empty list whatever the day/time segments are, and the
  row adds nothing to the expanded frame.
\<close>

theorem excluded_room_list_yields_nothing:
  assumes "re_search room_pattern s = Some m" and "map_of m ''room'' = Some room_info"
    and "keyword \<in> set exclusion_keywords" and "contains keyword room_info"
  shows "parse_lecture_time U s = Inr []
    \<and> expand_lecture_times U (\<lparr>lecture_time = s, passthrough = p\<rparr> # frame)
        = expand_lecture_times U frame"
proof -
  from assms(3,4) have "list_ex (\<lambda>keyword. contains keyword room_info) exclusion_keywords"
    unfolding list_ex_iff by blast
  with assms(1,2) have parsed: "parse_lecture_time U s = Inr []"
    by (simp add: parse_lecture_time_def Let_def)
  then show ?thesis by (simp split: sum.splits)
qed

text \<open>Two segments, Monday and Tuesday, before the room list \<open>(online)\<close>.\<close>

theorem excluded_room_list_yields_nothing_witness:
  "re_search room_pattern ([50900] @ ascii ''[1~2] 09:00~10:15 '' @ [54868]
       @ ascii ''[3] 13:00~14:15 ('' @ [50728, 46972, 51064] @ ascii '')'')
     = Some [(''room'', [50728, 46972, 51064])]
   \<and> length (re_finditer (time_pattern hangul_ascii) ([50900] @ ascii ''[1~2] 09:00~10:15 ''
       @ [54868] @ ascii ''[3] 13:00~14:15 ('' @ [50728, 46972, 51064] @ ascii '')'')) = 2
   \<and> parse_lecture_time hangul_ascii ([50900] @ ascii ''[1~2] 09:00~10:15 '' @ [54868]
       @ ascii ''[3] 13:00~14:15 ('' @ [50728, 46972, 51064] @ ascii '')'') = Inr []
   \<and> expand_lecture_times hangul_ascii [\<lparr>lecture_time = [50900] @ ascii ''[1~2] 09:00~10:15 ''
       @ [54868] @ ascii ''[3] 13:00~14:15 ('' @ [50728, 46972, 51064] @ ascii '')'',
       passthrough = ()\<rparr>] = Inr []"
  using excluded_room_list_yields_nothing[of
      "[50900] @ ascii ''[1~2] 09:00~10:15 '' @ [54868] @ ascii ''[3] 13:00~14:15 (''
         @ [50728, 46972, 51064] @ ascii '')''"
      "[(''room'', [50728, 46972, 51064])]" "[50728, 46972, 51064]" "[50728, 46972, 51064]"
      hangul_ascii "()" "[]"]
  by (simp add: rx_eval exclusion_keywords_def startswith_def)

section \<open>The gap computation\<close>

lemmas ft_eval = free_times_def operating_start_def operating_end_def min_free_duration_def

lemma overlaps_iff_common_point:
  "overlaps f b \<longleftrightarrow> (\<exists>t. fst f \<le> t \<and> t < snd f \<and> fst b \<le> t \<and> t < snd b)"
proof
  assume "overlaps f b"
  then have "fst f \<le> max (fst f) (fst b) \<and> max (fst f) (fst b) < snd f
      \<and> fst b \<le> max (fst f) (fst b) \<and> max (fst f) (fst b) < snd b"
    by (simp add: overlaps_def)
  then show "\<exists>t. fst f \<le> t \<and> t < snd f \<and> fst b \<le> t \<and> t < snd b" by blast
next
  assume "\<exists>t. fst f \<le> t \<and> t < snd f \<and> fst b \<le> t \<and> t < snd b"
  then show "overlaps f b" by (auto simp: overlaps_def)
qed

lemma sweep_starts_after_cursor: "f \<in> set (sweep c bs) \<Longrightarrow> c \<le> fst f"
proof (induction bs arbitrary: c)
  case Nil
  then show ?case by (simp split: if_splits)
next
  case (Cons b bs)
  obtain s e where b: "b = (s, e)" by (cases b)
  from Cons.prems b have "f = (c, s) \<or> f \<in> set (sweep (max c e) bs)"
    by (auto split: if_splits)
  then show ?case
  proof
    assume "f = (c, s)" then show ?thesis by simp
  next
    assume "f \<in> set (sweep (max c e) bs)"
    from Cons.IH[OF this] show ?thesis by simp
  qed
qed

text \<open>
  Over bookings sorted by their start, a gap ends before every booking still to come and
  starts after every booking already passed.
\<close>

lemma sweep_apart:
  "sorted (map fst bs) \<Longrightarrow> f \<in> set (sweep c bs) \<Longrightarrow> b \<in> set bs
     \<Longrightarrow> snd f \<le> fst b \<or> snd b \<le> fst f"
proof (induction bs arbitrary: c)
  case Nil
  then show ?case by simp
next
  case (Cons x bs)
  obtain s e where x: "x = (s, e)" by (cases x)
  from Cons.prems(1) x have sorted_tl: "sorted (map fst bs)" and least: "\<forall>y\<in>set bs. s \<le> fst y"
    by auto
  from Cons.prems(2) x have "f = (c, s) \<or> f \<in> set (sweep (max c e) bs)"
    by (auto split: if_splits)
  then show ?case
  proof
    assume f: "f = (c, s)"
    from Cons.prems(3) x least have "s \<le> fst b" by auto
    with f show ?thesis by simp
  next
    assume later: "f \<in> set (sweep (max c e) bs)"
    show ?thesis
    proof (cases "b = x")
      case True
      from sweep_starts_after_cursor[OF later] have "e \<le> fst f" by simp
      with True x show ?thesis by simp
    next
      case False
      with Cons.prems(3) have "b \<in> set bs" by simp
      from Cons.IH[OF sorted_tl later this] show ?thesis .
    qed
  qed
qed

text \<open>
  C5. Whatever the booked intervals of a room and day are (in any order, overlapping,
  repeated, even with an end before the start), no free interval computed for that room
  and day overlaps any of them.
\<close>

theorem free_never_overlaps_booked:
  "\<forall>f \<in> set (free_times booked). \<forall>b \<in> set booked. \<not> overlaps f b"
proof (intro ballI)
  fix f b
  assume f: "f \<in> set (free_times booked)" and b: "b \<in> set booked"
  then have ne: "sort_key fst booked \<noteq> []" by (metis empty_iff set_empty set_sort)
  with f have swept: "f \<in> set (sweep operating_start (sort_key fst booked))"
    by (simp add: free_times_def)
  have ordered: "sorted (map fst (sort_key fst booked))" by simp
  from b have "b \<in> set (sort_key fst booked)" by simp
  from sweep_apart[OF ordered swept this] have "snd f \<le> fst b \<or> snd b \<le> fst f" .
  then show "\<not> overlaps f b" by (auto simp: overlaps_def)
qed

theorem free_never_overlaps_booked_witness:
  "(570, 600) \<in> set (free_times [(600, 660), (630, 720)])
   \<and> (630, 720) \<in> set [(600, 660), (630, 720)]
   \<and> \<not> overlaps (570, 600) (630, 720)"
  using free_never_overlaps_booked[of "[(600, 660), (630, 720)]"]
  by (simp add: ft_eval)

text \<open>
  C6, at a booking that starts after the end of the operating window: a class from 23:00
  to 23:30 leaves the room free from 09:30 to 23:00, an hour past 22:00. The sweep bounds
  only the last gap by \<open>operating_end\<close>; a gap before a booking ends where the booking
  starts.
\<close>

theorem late_booking_frees_past_closing:
  "(570, 1380) \<in> set (free_times [(1380, 1410)]) \<and> operating_end < 1380"
  by (simp add: ft_eval)

text \<open>
  The stable sort by start, cut at one start: the bookings that start earlier, sorted, then
  those of that start in the order they were booked, then the later ones, sorted.
\<close>

lemma same_key_sorted: "sorted (map f [x\<leftarrow>xs. f x = k])"
  by (induction xs) auto

lemma filter_key_split:
  fixes f :: "'a \<Rightarrow> 'k::linorder"
  shows "[x\<leftarrow>[x\<leftarrow>xs. f x < k]. f x = j] @ [x\<leftarrow>[x\<leftarrow>xs. f x = k]. f x = j]
         @ [x\<leftarrow>[x\<leftarrow>xs. k < f x]. f x = j] = [x\<leftarrow>xs. f x = j]"
proof -
  have below: "[x\<leftarrow>[x\<leftarrow>xs. f x < k]. f x = j] = (if j < k then [x\<leftarrow>xs. f x = j] else [])"
    by (induction xs) auto
  have at: "[x\<leftarrow>[x\<leftarrow>xs. f x = k]. f x = j] = (if j = k then [x\<leftarrow>xs. f x = j] else [])"
    by (induction xs) auto
  have above: "[x\<leftarrow>[x\<leftarrow>xs. k < f x]. f x = j] = (if k < j then [x\<leftarrow>xs. f x = j] else [])"
    by (induction xs) auto
  show ?thesis
    unfolding below at above by (cases j k rule: linorder_cases) auto
qed

lemma sort_key_pivot:
  fixes f :: "'a \<Rightarrow> 'k::linorder"
  shows "sort_key f xs
    = sort_key f [x\<leftarrow>xs. f x < k] @ [x\<leftarrow>xs. f x = k] @ sort_key f [x\<leftarrow>xs. k < f x]"
proof -
  let ?ys = "sort_key f [x\<leftarrow>xs. f x < k] @ [x\<leftarrow>xs. f x = k] @ sort_key f [x\<leftarrow>xs. k < f x]"
  have "sort_key f xs = ?ys"
  proof (rule properties_for_sort_key)
    show "mset ?ys = mset xs" by (induction xs) auto
    show "sorted (map f ?ys)"
      by (auto simp: sorted_append same_key_sorted)
    show "[x\<leftarrow>?ys. f l = f x] = [x\<leftarrow>xs. f l = f x]" for l
    proof -
      have "[x\<leftarrow>?ys. f l = f x] = [x\<leftarrow>?ys. f x = f l]" by (rule filter_cong) auto
      also have "\<dots> = [x\<leftarrow>[x\<leftarrow>xs. f x < k]. f x = f l] @ [x\<leftarrow>[x\<leftarrow>xs. f x = k]. f x = f l]
         @ [x\<leftarrow>[x\<leftarrow>xs. k < f x]. f x = f l]"
        by (simp only: filter_append sort_key_stable)
      also have "\<dots> = [x\<leftarrow>xs. f x = f l]" by (rule filter_key_split)
      also have "\<dots> = [x\<leftarrow>xs. f l = f x]" by (rule filter_cong) auto
      finally show ?thesis .
    qed
  qed
  then show ?thesis .
qed

lemma cursor_after_append:
  "cursor_after c (A @ B) = cursor_after (cursor_after c A) B"
  by (induction A arbitrary: c) auto

lemma cursor_after_max: "cursor_after (max c d) M = max (cursor_after c M) d"
proof (induction M arbitrary: c)
  case Nil
  then show ?case by simp
next
  case (Cons x M)
  obtain s e where x: "x = (s, e)" by (cases x)
  have "max (max c d) e = max (max c e) d" by simp
  with Cons.IH[of "max c e"] show ?case by (simp add: x)
qed

lemma cursor_after_ge: "c \<le> cursor_after c M"
proof (induction M arbitrary: c)
  case Nil
  then show ?case by simp
next
  case (Cons x M)
  obtain s e where x: "x = (s, e)" by (cases x)
  have "c \<le> max c e" by simp
  also have "\<dots> \<le> cursor_after (max c e) M" by (rule Cons.IH)
  finally show ?case by (simp add: x)
qed

lemma sweep_append_cong:
  "sweep (cursor_after c A) B = sweep (cursor_after c A) B' \<Longrightarrow> sweep c (A @ B) = sweep c (A @ B')"
  by (induction A arbitrary: c) auto

lemma sweep_absorb:
  "\<forall>y\<in>set A. fst y \<le> c \<Longrightarrow> sweep c (A @ B) = sweep (cursor_after c A) B"
proof (induction A arbitrary: c)
  case Nil
  then show ?case by simp
next
  case (Cons x A)
  obtain s e where x: "x = (s, e)" by (cases x)
  from Cons.prems x have s: "s \<le> c" and rest: "\<forall>y\<in>set A. fst y \<le> max c e" by auto
  from Cons.IH[OF rest] s show ?case by (simp add: x)
qed

text \<open>A booking that starts at or before the cursor only moves the cursor.\<close>

lemma sweep_started:
  assumes "c \<le> X"
  shows "sweep X (sort_key fst (u @ (c, d) # v)) = sweep (max X d) (sort_key fst (u @ v))"
proof -
  let ?L = "sort_key fst [x\<leftarrow>u @ v. fst x < c]"
  let ?G = "sort_key fst [x\<leftarrow>u @ v. c < fst x]"
  let ?Eu = "[x\<leftarrow>u. fst x = c]"
  let ?Ev = "[x\<leftarrow>v. fst x = c]"
  have l: "sort_key fst (u @ (c, d) # v) = (?L @ ?Eu @ (c, d) # ?Ev) @ ?G"
    by (subst sort_key_pivot[of fst _ c]) simp
  have r: "sort_key fst (u @ v) = (?L @ ?Eu @ ?Ev) @ ?G"
    by (subst sort_key_pivot[of fst _ c]) simp
  have "sweep X ((?L @ ?Eu @ (c, d) # ?Ev) @ ?G)
      = sweep (cursor_after X (?L @ ?Eu @ (c, d) # ?Ev)) ?G"
    using assms by (intro sweep_absorb) auto
  moreover have "sweep (max X d) ((?L @ ?Eu @ ?Ev) @ ?G)
      = sweep (cursor_after (max X d) (?L @ ?Eu @ ?Ev)) ?G"
    using assms by (intro sweep_absorb) auto
  moreover have "cursor_after X (?L @ ?Eu @ (c, d) # ?Ev)
      = cursor_after (max X d) (?L @ ?Eu @ ?Ev)"
    by (simp add: cursor_after_append cursor_after_max)
  ultimately show ?thesis unfolding l r by simp
qed

text \<open>
  One replacement, on the sorted list: \<open>lo\<close>, \<open>eq1\<close>, \<open>eq2\<close> and \<open>hi\<close> are the
  bookings that start before, at and after \<open>a\<close>.
\<close>

lemma sweep_merge_same_start:
  assumes "a \<le> b" and "\<forall>y\<in>set eq2. fst y = a" and "\<forall>y\<in>set eq3. fst y = a"
  shows "sweep c0 (lo @ (eq1 @ (a, b) # eq2 @ (a, d) # eq3) @ hi)
       = sweep c0 (lo @ (eq1 @ (a, max b d) # eq2 @ eq3) @ hi)"
proof -
  have "sweep c0 ((lo @ eq1) @ (a, b) # (eq2 @ (a, d) # eq3) @ hi)
      = sweep c0 ((lo @ eq1) @ (a, max b d) # (eq2 @ eq3) @ hi)"
  proof (rule sweep_append_cong)
    let ?c = "cursor_after c0 (lo @ eq1)"
    have "sweep (max ?c b) ((eq2 @ (a, d) # eq3) @ hi)
        = sweep (cursor_after (max ?c b) (eq2 @ (a, d) # eq3)) hi"
      using assms by (intro sweep_absorb) auto
    moreover have "sweep (max ?c (max b d)) ((eq2 @ eq3) @ hi)
        = sweep (cursor_after (max ?c (max b d)) (eq2 @ eq3)) hi"
      using assms by (intro sweep_absorb) auto
    moreover have "cursor_after (max ?c b) (eq2 @ (a, d) # eq3)
        = cursor_after (max ?c (max b d)) (eq2 @ eq3)"
      by (simp add: cursor_after_append cursor_after_max max.assoc max.commute max.left_commute)
    ultimately show "sweep ?c ((a, b) # (eq2 @ (a, d) # eq3) @ hi)
        = sweep ?c ((a, max b d) # (eq2 @ eq3) @ hi)"
      by simp
  qed
  then show ?thesis by simp
qed

lemma sweep_merge_later_start:
  assumes "c \<le> b" and "\<forall>y\<in>set eq2. fst y \<le> c"
  shows "sweep c0 (lo @ (eq1 @ (a, b) # eq2) @ sort_key fst (u @ (c, d) # v))
       = sweep c0 (lo @ (eq1 @ (a, max b d) # eq2) @ sort_key fst (u @ v))"
proof -
  have "sweep c0 ((lo @ eq1) @ (a, b) # eq2 @ sort_key fst (u @ (c, d) # v))
      = sweep c0 ((lo @ eq1) @ (a, max b d) # eq2 @ sort_key fst (u @ v))"
  proof (rule sweep_append_cong)
    let ?c = "cursor_after c0 (lo @ eq1)"
    let ?X = "cursor_after (max ?c b) eq2"
    have "b \<le> max ?c b" by simp
    also have "\<dots> \<le> ?X" by (rule cursor_after_ge)
    finally have X: "c \<le> ?X" using assms(1) by simp
    have "sweep (max ?c b) (eq2 @ sort_key fst (u @ (c, d) # v))
        = sweep ?X (sort_key fst (u @ (c, d) # v))"
      using assms by (intro sweep_absorb) auto
    also have "\<dots> = sweep (max ?X d) (sort_key fst (u @ v))"
      using X by (rule sweep_started)
    also have "max ?X d = cursor_after (max ?c (max b d)) eq2"
      by (simp add: cursor_after_max max.assoc)
    also have "sweep (cursor_after (max ?c (max b d)) eq2) (sort_key fst (u @ v))
        = sweep (max ?c (max b d)) (eq2 @ sort_key fst (u @ v))"
      using assms by (intro sweep_absorb[symmetric]) auto
    finally show "sweep ?c ((a, b) # eq2 @ sort_key fst (u @ (c, d) # v))
        = sweep ?c ((a, max b d) # eq2 @ sort_key fst (u @ v))"
      by simp
  qed
  then show ?thesis by simp
qed

lemma free_times_nonempty:
  "booked \<noteq> [] \<Longrightarrow> free_times booked = sweep operating_start (sort_key fst booked)"
  by (simp add: free_times_def Let_def) (metis length_0_conv length_sort)

text \<open>
  Where no booking ends before it starts, the order of the bookings of one start does not
  matter: the first of them closes the gap, and the cursor after them is the latest end.
\<close>

lemma sweep_reordered:
  assumes "mset S = mset T" and "sorted (map fst S)" and "sorted (map fst T)"
    and "\<forall>x\<in>set S. fst x \<le> snd x"
  shows "sweep c S = sweep c T"
  using assms
proof (induction "length S" arbitrary: S T c rule: less_induct)
  case less
  show ?case
  proof (cases S)
    case Nil
    with less.prems(1) show ?thesis by simp
  next
    case (Cons x S')
    with less.prems(1) have "T \<noteq> []" by auto
    then obtain y T' where T: "T = y # T'" by (cases T) auto
    obtain k e1 where x: "x = (k, e1)" by (cases x)
    obtain k' e2 where y: "y = (k', e2)" by (cases y)
    have sets: "set S = set T" using less.prems(1) by (rule mset_eq_setD)
    have proper: "\<forall>z\<in>set T. fst z \<le> snd z" using less.prems(4) sets by simp
    have "y \<in> set S" using sets T by simp
    with less.prems(2) Cons have "fst x \<le> fst y" by auto
    moreover have "x \<in> set T" using sets Cons by auto
    with less.prems(3) T have "fst y \<le> fst x" by auto
    ultimately have k: "k' = k" using x y by simp
    have e1: "k \<le> e1" using less.prems(4) Cons x by simp
    have e2: "k \<le> e2" using proper T y k by simp
    show ?thesis
    proof (cases "x = y")
      case True
      have "sweep (max c e1) S' = sweep (max c e1) T'"
      proof (rule less.hyps)
        show "length S' < length S" using Cons by simp
        show "mset S' = mset T'" using less.prems(1) Cons T True by simp
        show "sorted (map fst S')" using less.prems(2) Cons by simp
        show "sorted (map fst T')" using less.prems(3) T by simp
        show "\<forall>x\<in>set S'. fst x \<le> snd x" using less.prems(4) Cons by simp
      qed
      with True[symmetric] show ?thesis by (simp add: Cons T x)
    next
      case False
      let ?U = "remove1 y S'"
      have yS': "y \<in> set S'" using \<open>y \<in> set S\<close> Cons False by auto
      have sortedS': "sorted (map fst S')" using less.prems(2) Cons by simp
      have sortedU: "sorted (map fst ?U)" using sortedS' by (rule sorted_map_remove1)
      have lowS: "\<forall>z\<in>set S'. k \<le> fst z" using less.prems(2) Cons x by auto
      have lowU: "\<forall>z\<in>set ?U. k \<le> fst z" using lowS by (auto dest: notin_set_remove1)
      have left: "sweep (max c e1) S' = sweep (max c e1) (y # ?U)"
      proof (rule less.hyps)
        show "length S' < length S" using Cons by simp
        show "mset S' = mset (y # ?U)" using yS' by simp
        show "sorted (map fst S')" by (rule sortedS')
        show "sorted (map fst (y # ?U))" using sortedU lowU y k by auto
        show "\<forall>x\<in>set S'. fst x \<le> snd x" using less.prems(4) Cons by simp
      qed
      have right: "sweep (max c e2) T' = sweep (max c e2) (x # ?U)"
      proof (rule less.hyps)
        show "length T' < length S" using less.prems(1) T by (metis length_Cons lessI size_mset)
        have "mset T' = mset T - {#y#}" using T by simp
        also have "\<dots> = mset S - {#y#}" using less.prems(1) by simp
        also have "\<dots> = mset (x # ?U)" using Cons yS' False by simp
        finally show "mset T' = mset (x # ?U)" .
        show "sorted (map fst T')" using less.prems(3) T by simp
        show "sorted (map fst (x # ?U))" using sortedU lowU x by auto
        show "\<forall>x\<in>set T'. fst x \<le> snd x" using proper T by simp
      qed
      have "sweep c S = sweep c ((k, e1) # (k, e2) # ?U)"
        using left by (simp add: Cons x y k)
      also have "\<dots> = sweep c ((k, e2) # (k, e1) # ?U)"
        using e1 e2 by (simp add: max.assoc max.commute max.left_commute)
      also have "\<dots> = sweep c T"
        using right by (simp add: T x y k)
      finally show ?thesis .
    qed
  qed
qed

lemma collapse_keeps_free_times:
  assumes "collapse xs ys"
  shows "free_times ys = free_times xs"
  using assms
proof cases
  case (earlier a c b pre mid d post)
  let ?lo = "sort_key fst [x\<leftarrow>pre @ mid @ post. fst x < a]"
  let ?e1 = "[x\<leftarrow>pre. fst x = a]"
  show ?thesis
  proof (cases "a = c")
    case True
    let ?e2 = "[x\<leftarrow>mid. fst x = a]" and ?e3 = "[x\<leftarrow>post. fst x = a]"
    let ?hi = "sort_key fst [x\<leftarrow>pre @ mid @ post. a < fst x]"
    have l: "sort_key fst (pre @ (a, b) # mid @ (a, d) # post)
        = ?lo @ (?e1 @ (a, b) # ?e2 @ (a, d) # ?e3) @ ?hi"
      by (subst sort_key_pivot[of fst _ a]) simp
    have r: "sort_key fst (pre @ (a, max b d) # mid @ post)
        = ?lo @ (?e1 @ (a, max b d) # ?e2 @ ?e3) @ ?hi"
      by (subst sort_key_pivot[of fst _ a]) simp
    have "sweep operating_start (sort_key fst (pre @ (a, b) # mid @ (a, d) # post))
        = sweep operating_start (sort_key fst (pre @ (a, max b d) # mid @ post))"
      unfolding l r using earlier(3,4) True by (intro sweep_merge_same_start) auto
    then show ?thesis by (simp add: free_times_nonempty earlier(1,2) True)
  next
    case False
    with earlier(3) have ac: "a < c" by simp
    let ?e2 = "[x\<leftarrow>mid @ post. fst x = a]"
    let ?u = "[x\<leftarrow>pre @ mid. a < fst x]" and ?v = "[x\<leftarrow>post. a < fst x]"
    have l: "sort_key fst (pre @ (a, b) # mid @ (c, d) # post)
        = ?lo @ (?e1 @ (a, b) # ?e2) @ sort_key fst (?u @ (c, d) # ?v)"
      using ac by (subst sort_key_pivot[of fst _ a]) simp
    have r: "sort_key fst (pre @ (a, max b d) # mid @ post)
        = ?lo @ (?e1 @ (a, max b d) # ?e2) @ sort_key fst (?u @ ?v)"
      by (subst sort_key_pivot[of fst _ a]) simp
    have "sweep operating_start (sort_key fst (pre @ (a, b) # mid @ (c, d) # post))
        = sweep operating_start (sort_key fst (pre @ (a, max b d) # mid @ post))"
      unfolding l r using earlier(4) ac by (intro sweep_merge_later_start) auto
    then show ?thesis by (simp add: free_times_nonempty earlier(1,2))
  qed
next
  case (later a c b pre d mid post)
  let ?lo = "sort_key fst [x\<leftarrow>pre @ mid @ post. fst x < a]"
  let ?e1 = "[x\<leftarrow>pre @ mid. fst x = a]" and ?e2 = "[x\<leftarrow>post. fst x = a]"
  let ?u = "[x\<leftarrow>pre. a < fst x]" and ?v = "[x\<leftarrow>mid @ post. a < fst x]"
  have l: "sort_key fst (pre @ (c, d) # mid @ (a, b) # post)
      = ?lo @ (?e1 @ (a, b) # ?e2) @ sort_key fst (?u @ (c, d) # ?v)"
    using later(3) by (subst sort_key_pivot[of fst _ a]) simp
  have r: "sort_key fst (pre @ mid @ (a, max b d) # post)
      = ?lo @ (?e1 @ (a, max b d) # ?e2) @ sort_key fst (?u @ ?v)"
    by (subst sort_key_pivot[of fst _ a]) simp
  have "sweep operating_start (sort_key fst (pre @ (c, d) # mid @ (a, b) # post))
      = sweep operating_start (sort_key fst (pre @ mid @ (a, max b d) # post))"
    unfolding l r using later(3,4) by (intro sweep_merge_later_start) auto
  then show ?thesis by (simp add: free_times_nonempty later(1,2))
next
  case reorder
  show ?thesis
  proof (cases "xs = []")
    case True
    with reorder(1) show ?thesis by simp
  next
    case False
    with reorder(1) have "ys \<noteq> []" by auto
    have "sweep operating_start (sort_key fst xs) = sweep operating_start (sort_key fst ys)"
      using reorder by (intro sweep_reordered) (auto simp: list_all_iff)
    with False \<open>ys \<noteq> []\<close> show ?thesis by (simp add: free_times_nonempty)
  qed
qed

text \<open>
  C4. The free times of a room on a day do not change when overlapping or nested booked
  intervals are replaced by their union, once or repeatedly: they are the same for the
  collapsed list as for the list as booked. In particular the bookings 10:00 to 11:00 and
  10:30 to 12:00 give the free times of the one booking 10:00 to 12:00.
\<close>

theorem overlap_collapsing_keeps_free_times:
  assumes "collapse\<^sup>*\<^sup>* booked collapsed"
  shows "free_times collapsed = free_times booked"
  using assms
proof (induction rule: rtranclp_induct)
  case base
  show ?case by simp
next
  case (step ys zs)
  from step.hyps(2) have "free_times zs = free_times ys" by (rule collapse_keeps_free_times)
  with step.IH show ?case by simp
qed

theorem overlap_collapsing_keeps_free_times_witness:
  "collapse\<^sup>*\<^sup>* [(600, 660), (630, 720)] [(600, 720)]
   \<and> free_times [(600, 720)] = free_times [(600, 660), (630, 720)]
   \<and> free_times [(600, 660), (630, 720)] = [(570, 600), (720, 1320)]"
proof -
  have "collapse [(600, 660), (630, 720)] [(600, 720)]"
    using collapse.earlier[of 600 630 660 "[]" "[]" 720 "[]"] by simp
  then have step: "collapse\<^sup>*\<^sup>* [(600, 660), (630, 720)] [(600, 720)]"
    by (rule r_into_rtranclp)
  from overlap_collapsing_keeps_free_times[OF step] step show ?thesis
    by (simp add: ft_eval)
qed

section \<open>The index builder\<close>

lemma remove_all_skip: "length xs = k \<Longrightarrow> remove_all b k (xs @ rest) = remove_all b 0 rest"
proof (induction xs arbitrary: k)
  case Nil
  then show ?case by simp
next
  case (Cons x xs)
  then obtain j where "k = Suc j" "length xs = j" by (cases k) auto
  with Cons.IH show ?case by simp
qed

lemma remove_all_absent: "\<not> contains b rest \<Longrightarrow> remove_all b 0 rest = rest"
  by (induction rest) auto

lemma replace_prefix_once:
  assumes "startswith s b" and "\<not> contains b (drop (length b) s)"
  shows "replace_empty s b = drop (length b) s"
proof (cases b)
  case Nil
  with assms(2) show ?thesis by (cases s) (auto simp: startswith_def)
next
  case (Cons c cs)
  from assms(1) have s: "s = b @ drop (length b) s"
    by (metis append_take_drop_id startswith_def)
  have "remove_all b 0 (b @ drop (length b) s) = remove_all b (length cs) (cs @ drop (length b) s)"
    using Cons by (simp add: startswith_def)
  also have "\<dots> = remove_all b 0 (drop (length b) s)"
    by (rule remove_all_skip) simp
  also have "\<dots> = drop (length b) s"
    using assms(2) by (rule remove_all_absent)
  finally show ?thesis using s by (simp add: replace_empty_def)
qed

lemma buildings_first_char:
  "b \<in> set buildings \<Longrightarrow> b' \<in> set buildings \<Longrightarrow> b \<noteq> [] \<and> (hd b = hd b' \<longrightarrow> b = b')"
  by (auto simp: buildings_def)

lemma one_building_prefix:
  assumes "b \<in> set buildings" "b' \<in> set buildings" "startswith s b" "startswith s b'"
  shows "b' = b"
proof -
  from buildings_first_char[OF assms(1,2)] buildings_first_char[OF assms(2,1)]
  have ne: "b \<noteq> []" "b' \<noteq> []" and same: "hd b = hd b' \<Longrightarrow> b = b'" by auto
  from assms(3) ne(1) have "hd b = hd s"
    by (metis hd_take length_greater_0_conv startswith_def)
  moreover from assms(4) ne(2) have "hd b' = hd s"
    by (metis hd_take length_greater_0_conv startswith_def)
  ultimately show ?thesis using same by simp
qed

text \<open>
  C8, amended. The building of a room string is the first entry of \<open>buildings\<close> the string
  starts with; no entry is a prefix of another, so it is also the longest known prefix.
  The room number is the text after that prefix with the white space around it removed,
  for a room string that does not hold the building name a second time. A room string that
  starts with no known building leaves the index as it was, without an error.
\<close>

theorem building_and_room_number:
  "(resolve_building s = Some b \<longrightarrow>
      b \<in> set buildings \<and> startswith s b
      \<and> (\<forall>b' \<in> set buildings. startswith s b' \<longrightarrow> length b' \<le> length b)
      \<and> (\<not> contains b (drop (length b) s)
           \<longrightarrow> room_number_of U s b = strip U (drop (length b) s)))
   \<and> (resolve_building (strip U piece) = None \<longrightarrow>
        (\<forall>b' \<in> set buildings. \<not> startswith (strip U piece) b')
        \<and> book_room U row sched piece = Inr sched)"
proof (intro conjI impI)
  assume found: "resolve_building s = Some b"
  then show known: "b \<in> set buildings" and pre: "startswith s b"
    by (auto simp: resolve_building_def find_Some_iff)
  show "\<forall>b' \<in> set buildings. startswith s b' \<longrightarrow> length b' \<le> length b"
    using one_building_prefix[OF known _ pre] by auto
  assume "\<not> contains b (drop (length b) s)"
  with pre show "room_number_of U s b = strip U (drop (length b) s)"
    by (simp add: room_number_of_def replace_prefix_once)
next
  assume none: "resolve_building (strip U piece) = None"
  then show "\<forall>b' \<in> set buildings. \<not> startswith (strip U piece) b'"
    by (auto simp: resolve_building_def find_None_iff)
  from none show "book_room U row sched piece = Inr sched"
    by (simp add: book_room_def)
qed

lemmas room_eval = resolve_building_def room_number_of_def replace_empty_def buildings_def
  startswith_def strip_def hangul_ascii_def ascii_def book_room_def

theorem building_and_room_number_witness:
  "resolve_building ([65, 46041] @ ascii '' 101'') = Some [65, 46041]
   \<and> \<not> contains [65, 46041] (drop (length [65, 46041 :: nat]) ([65, 46041] @ ascii '' 101''))
   \<and> room_number_of hangul_ascii ([65, 46041] @ ascii '' 101'') [65, 46041] = ascii ''101''
   \<and> resolve_building (strip hangul_ascii (ascii '' B201'')) = None
   \<and> book_room hangul_ascii
        \<lparr>source = \<lparr>lecture_time = [], passthrough = ()\<rparr>, e_Day = Some [50900],
         e_Free_From = Some (ascii ''09:00''), e_Free_To = Some (ascii ''10:15''),
         e_RoomA = Some (ascii ''B201''), e_RoomB = None\<rparr> [] (ascii '' B201'') = Inr []"
  using building_and_room_number[of "[65, 46041] @ ascii '' 101''" "[65, 46041]" hangul_ascii
      "ascii '' B201''"
      "\<lparr>source = \<lparr>lecture_time = [], passthrough = ()\<rparr>, e_Day = Some [50900],
         e_Free_From = Some (ascii ''09:00''), e_Free_To = Some (ascii ''10:15''),
         e_RoomA = Some (ascii ''B201''), e_RoomB = None\<rparr>" "[]"]
  by (simp add: room_eval)

text \<open>
  The room number is not always the text after the prefix: in \<open>"A\<dots> 101"\<close> the blank
  after the building is dropped, and in \<open>"A\<dots>101A\<dots>"\<close> the second occurrence of the
  building name is removed with the first (\<open>replace\<close> removes every occurrence).
\<close>

theorem room_number_is_not_the_remainder:
  "resolve_building ([65, 46041] @ ascii '' 101'') = Some [65, 46041]
   \<and> room_number_of hangul_ascii ([65, 46041] @ ascii '' 101'') [65, 46041]
       \<noteq> drop (length [65, 46041 :: nat]) ([65, 46041] @ ascii '' 101'')
   \<and> resolve_building ([65, 46041] @ ascii ''101'' @ [65, 46041]) = Some [65, 46041]
   \<and> room_number_of hangul_ascii ([65, 46041] @ ascii ''101'' @ [65, 46041]) [65, 46041]
       \<noteq> drop (length [65, 46041 :: nat]) ([65, 46041] @ ascii ''101'' @ [65, 46041])"
  by (simp add: room_eval)

section \<open>The table of free rooms\<close>

text \<open>
  The index \<open>extract_room_schedule\<close> builds from an empty one has each building once, each
  room once under its building, and only times of the day.
\<close>

lemma set_update_subset: "set (AList.update k v al) \<subseteq> insert (k, v) (set al)"
  by (induction al) auto

lemma list_all_update:
  "list_all P al \<Longrightarrow> P (k, v) \<Longrightarrow> list_all P (AList.update k v al)"
  using set_update_subset[of k v al] by (auto simp: list_all_iff)

lemma list_all_get_or:
  "list_all (\<lambda>(k, v). P v) al \<Longrightarrow> P dflt \<Longrightarrow> P (get_or al k dflt)"
  by (auto simp: get_or_def list_all_iff split: option.splits dest: map_of_SomeD)

lemma rooms_ok_Nil: "rooms_ok []"
  by (simp add: rooms_ok_def)

lemma rooms_of_ok: "index_ok sched \<Longrightarrow> rooms_ok (get_or sched building [])"
proof -
  assume "index_ok sched"
  then have "list_all (\<lambda>(building, rooms). rooms_ok rooms) sched" by (simp add: index_ok_def)
  then show ?thesis using rooms_ok_Nil by (rule list_all_get_or)
qed

lemma schedule_of_ok: "rooms_ok rooms \<Longrightarrow> times_ok_schedule (get_or rooms room_number [])"
proof -
  assume "rooms_ok rooms"
  then have "list_all (\<lambda>(room_number, schedule). times_ok_schedule schedule) rooms"
    by (simp add: rooms_ok_def)
  moreover have "times_ok_schedule []" by (simp add: times_ok_schedule_def)
  ultimately show ?thesis by (rule list_all_get_or)
qed

lemma booked_in_schedule_ok:
  "times_ok_schedule schedule \<Longrightarrow> times_ok_booked (get_or schedule day [])"
proof -
  assume "times_ok_schedule schedule"
  then have "list_all (\<lambda>(day, booked). times_ok_booked booked) schedule"
    by (simp add: times_ok_schedule_def)
  moreover have "times_ok_booked []" by (simp add: times_ok_booked_def)
  ultimately show ?thesis by (rule list_all_get_or)
qed

lemma put_booked_ok:
  assumes "index_ok sched" and "times_ok_booked booked"
  shows "index_ok (put_booked sched building room_number day booked)"
proof -
  let ?rooms = "get_or sched building []"
  let ?schedule = "get_or ?rooms room_number []"
  have rooms: "rooms_ok ?rooms" using assms(1) by (rule rooms_of_ok)
  then have "times_ok_schedule ?schedule" by (rule schedule_of_ok)
  with assms(2) have "times_ok_schedule (AList.update day booked ?schedule)"
    unfolding times_ok_schedule_def by (auto intro: list_all_update)
  with rooms have "rooms_ok (AList.update room_number (AList.update day booked ?schedule) ?rooms)"
    unfolding rooms_ok_def by (auto intro: list_all_update distinct_update)
  with assms(1) show ?thesis
    unfolding index_ok_def put_booked_def Let_def by (auto intro: list_all_update distinct_update)
qed

lemma booked_of_ok:
  assumes "index_ok sched"
  shows "times_ok_booked (booked_of sched building room_number day)"
  unfolding booked_of_def
  by (intro booked_in_schedule_ok schedule_of_ok rooms_of_ok assms)

lemma strptime_HM_range: "strptime_HM U s = Some t \<Longrightarrow> t < 1440"
  by (auto simp: strptime_HM_def split: option.splits prod.splits if_splits)

lemma book_room_ok:
  assumes "index_ok sched" and "book_room U row sched piece = Inr sched1"
  shows "index_ok sched1"
proof (cases "resolve_building (strip U piece)")
  case None
  with assms show ?thesis by (simp add: book_room_def)
next
  case (Some building)
  let ?rn = "room_number_of U (strip U piece) building"
  let ?booked = "booked_of sched building ?rn (e_Day row)"
  let ?sched1 = "put_booked sched building ?rn (e_Day row) ?booked"
  have old: "times_ok_booked ?booked" using assms(1) by (rule booked_of_ok)
  have first: "index_ok ?sched1" using assms(1) old by (rule put_booked_ok)
  have second: "index_ok (put_booked ?sched1 building ?rn (e_Day row) (?booked @ [(a, b)]))"
    if "a < 1440" "b < 1440" for a b
  proof -
    from old that have "times_ok_booked (?booked @ [(a, b)])" by (simp add: times_ok_booked_def)
    with first show ?thesis by (rule put_booked_ok)
  qed
  from assms(2) Some show ?thesis
    using first second
    by (auto simp: book_room_def Let_def split: option.splits dest: strptime_HM_range)
qed

lemma book_rooms_ok:
  "index_ok sched \<Longrightarrow> book_rooms U row sched pieces = Inr sched1 \<Longrightarrow> index_ok sched1"
proof (induction pieces arbitrary: sched)
  case Nil
  then show ?case by simp
next
  case (Cons piece pieces)
  then show ?case by (auto split: sum.splits dest: book_room_ok)
qed

lemma book_column_ok:
  "index_ok sched \<Longrightarrow> book_column U row sched room = Inr sched1 \<Longrightarrow> index_ok sched1"
  by (auto simp: book_column_def split: option.splits dest: book_rooms_ok)

lemma extract_rows_ok:
  "index_ok sched \<Longrightarrow> extract_rows U sched rows = Inr sched1 \<Longrightarrow> index_ok sched1"
proof (induction rows arbitrary: sched)
  case Nil
  then show ?case by simp
next
  case (Cons row rows)
  from Cons.prems(2) obtain s1 s2 where
    a: "book_column U row sched (e_RoomA row) = Inr s1" and
    b: "book_column U row s1 (e_RoomB row) = Inr s2" and
    c: "extract_rows U s2 rows = Inr sched1"
    by (auto split: sum.splits)
  from Cons.prems(1) a have "index_ok s1" by (rule book_column_ok)
  then have "index_ok s2" using b by (rule book_column_ok)
  then show ?case using c by (rule Cons.IH)
qed

lemma extract_room_schedule_ok:
  assumes "extract_room_schedule U (RoomScheduler frame) = Inr self1"
  shows "index_ok (room_schedule self1)"
proof -
  have "index_ok []" by (simp add: index_ok_def)
  with assms show ?thesis
    by (auto simp: extract_room_schedule_def RoomScheduler_def split: sum.splits
        dest: extract_rows_ok)
qed

text \<open>
  The rows of one building, room and day stand together in the table, and nowhere else.
\<close>

lemma filter_concat_unique:
  assumes "distinct (map g xs)" and "x \<in> set xs"
    and "\<And>y r. y \<in> set xs \<Longrightarrow> r \<in> set (f y) \<Longrightarrow> P r \<Longrightarrow> g y = g x"
  shows "filter P (concat (map f xs)) = filter P (f x)"
  using assms
proof (induction xs)
  case Nil
  then show ?case by simp
next
  case (Cons y ys)
  show ?case
  proof (cases "y = x")
    case True
    with Cons.prems(1) have notin: "g x \<notin> g ` set ys" by auto
    have "filter P (concat (map f ys)) = []"
    proof -
      have "\<not> P r" if "z \<in> set ys" "r \<in> set (f z)" for z r
      proof
        assume "P r"
        with Cons.prems(3)[of z r] that have "g z = g x" by simp
        with that(1) notin show False by (metis imageI)
      qed
      then show ?thesis by (auto simp: filter_empty_conv)
    qed
    with True show ?thesis by simp
  next
    case False
    with Cons.prems(2) have x: "x \<in> set ys" by simp
    with Cons.prems(1) have "g y \<noteq> g x" by (metis distinct.simps(2) imageI list.simps(9) set_map)
    then have "filter P (f y) = []"
      using Cons.prems(3)[of y] by (auto simp: filter_empty_conv)
    moreover have "filter P (concat (map f ys)) = filter P (f x)"
      using Cons.prems(1) x Cons.prems(3) by (intro Cons.IH) auto
    ultimately show ?thesis by simp
  qed
qed

lemma days_distinct: "distinct days"
  by (simp add: days_def)

text \<open>The rows of one room on one day are the free times of that day, formatted.\<close>

lemma rows_of_room_day:
  assumes "index_ok sched" and "map_of sched building = Some rooms"
    and "map_of rooms room_number = Some schedule" and "day \<in> set days"
  shows "filter (\<lambda>r. Building r = building \<and> Room_Number r = room_number \<and> Day r = day)
           (empty_rooms sched)
         = day_rows building room_number schedule day"
proof -
  let ?P = "\<lambda>r. Building r = building \<and> Room_Number r = room_number \<and> Day r = day"
  from assms(1) have d1: "distinct (map fst sched)" by (simp add: index_ok_def)
  from assms(2) have in1: "(building, rooms) \<in> set sched" by (rule map_of_SomeD)
  from assms(1) in1 have "rooms_ok rooms" by (auto simp: index_ok_def list_all_iff)
  then have d2: "distinct (map fst rooms)" by (simp add: rooms_ok_def)
  from assms(3) have in2: "(room_number, schedule) \<in> set rooms" by (rule map_of_SomeD)
  have "filter ?P (empty_rooms sched) = filter ?P (building_rows (building, rooms))"
    unfolding empty_rooms_def
    by (rule filter_concat_unique[OF d1 in1])
       (auto simp: building_rows_def room_rows_def day_rows_def)
  also have "\<dots> = filter ?P (room_rows building (room_number, schedule))"
    unfolding building_rows_def
    by (simp, rule filter_concat_unique[OF d2 in2])
       (auto simp: room_rows_def day_rows_def)
  also have "\<dots> = filter ?P (day_rows building room_number schedule day)"
    unfolding room_rows_def
    by (simp, rule filter_concat_unique[where g = id, simplified, OF days_distinct assms(4)])
       (auto simp: day_rows_def)
  also have "\<dots> = day_rows building room_number schedule day"
    by (auto simp: day_rows_def filter_id_conv)
  finally show ?thesis .
qed


lemma map_of_map_keyed:
  "map_of (map (\<lambda>(k, v). (k, h k v)) xs) k = map_option (h k) (map_of xs k)"
  by (induction xs) auto

lemma get_or_map_keyed:
  "h k dflt = dflt' \<Longrightarrow> get_or (map (\<lambda>(k, v). (k, h k v)) xs) k dflt' = h k (get_or xs k dflt)"
  by (auto simp: get_or_def map_of_map_keyed split: option.splits)

lemma fst_set_map_keyed: "fst ` set (map (\<lambda>(k, v). (k, h k v)) xs) = fst ` set xs"
  by (induction xs) auto

lemma fst_image_keyed: "fst ` (\<lambda>(k, v). (k, h k v)) ` A = fst ` A"
  by force

lemma sort_key_Nil_iff: "sort_key f xs = [] \<longleftrightarrow> xs = []"
  by (metis length_0_conv length_sort)

lemma sort_booked_keys: "fst ` set (sort_booked sched) = fst ` set sched"
  unfolding sort_booked_def by (rule fst_set_map_keyed)

lemma sort_booked_rooms:
  "fst ` set (get_or (sort_booked sched) building []) = fst ` set (get_or sched building [])"
  unfolding sort_booked_def
  by (subst get_or_map_keyed[where dflt = "[]"]) (simp_all add: fst_image_keyed)

lemma sort_booked_booked:
  "booked_of (sort_booked sched) building room_number day
   = (if day \<in> Some ` set days then sort_key fst (booked_of sched building room_number day)
      else booked_of sched building room_number day)"
  unfolding sort_booked_def booked_of_def
  by (subst get_or_map_keyed[where dflt = "[]"], simp,
      subst get_or_map_keyed[where dflt = "[]"], simp,
      subst get_or_map_keyed[where dflt = "[]"], simp, simp)

lemma strftime_0930: "strftime_HM operating_start = ascii ''0930''"
  by (simp add: strftime_HM_def operating_start_def ascii_def)

lemma strftime_2200: "strftime_HM operating_end = ascii ''2200''"
  by (simp add: strftime_HM_def operating_end_def ascii_def)

text \<open>
  C7. For every room of the index (a building of the index and a room number under it) and
  every day of the program's week (\<open>self.days\<close>, Monday to Saturday), if the list of booked
  intervals of that room on that day is empty (the day has no entry, or an entry with no
  interval), then the table returned by \<open>find_empty_rooms\<close> holds exactly one row for that
  room and day, and it is the whole operating window, \<open>0930\<close> to \<open>2200\<close>.
\<close>

theorem empty_day_gives_full_window:
  assumes "find_empty_rooms U (RoomScheduler frame) = Inr (self1, rows)"
    and "building \<in> fst ` set (room_schedule self1)"
    and "room_number \<in> fst ` set (get_or (room_schedule self1) building [])"
    and "day \<in> set [[50900], [54868], [49688], [47785], [44552], [53664]]"
    and "booked_of (room_schedule self1) building room_number (Some day) = []"
  shows "filter (\<lambda>r. Building r = building \<and> Room_Number r = room_number \<and> Day r = day) rows
         = [\<lparr>Building = building, Room_Number = room_number, Day = day,
             Free_From = ascii ''0930'', Free_To = ascii ''2200''\<rparr>]"
proof -
  from assms(1) obtain self0 where
    extracted: "extract_room_schedule U (RoomScheduler frame) = Inr self0" and
    sorted_index: "room_schedule self1 = sort_booked (room_schedule self0)" and
    rows: "rows = empty_rooms (room_schedule self0)"
    by (auto simp: find_empty_rooms_def split: sum.splits)
  let ?sched = "room_schedule self0"
  from assms(4) have day: "day \<in> set days" by (simp add: days_def)
  have ok: "index_ok ?sched" using extracted by (rule extract_room_schedule_ok)
  from assms(2) sorted_index have "building \<in> fst ` set ?sched" by (simp add: sort_booked_keys)
  then obtain rooms where rooms: "map_of ?sched building = Some rooms"
    by (metis not_Some_eq map_of_eq_None_iff)
  then have get_rooms: "get_or ?sched building [] = rooms" by (simp add: get_or_def)
  from assms(3) sorted_index get_rooms have "room_number \<in> fst ` set rooms"
    by (simp add: sort_booked_rooms)
  then obtain schedule where schedule: "map_of rooms room_number = Some schedule"
    by (metis not_Some_eq map_of_eq_None_iff)
  from assms(5) sorted_index have "booked_of ?sched building room_number (Some day) = []"
    by (simp add: sort_booked_booked sort_key_Nil_iff split: if_splits)
  with get_rooms schedule have none: "get_or schedule (Some day) [] = []"
    by (simp add: booked_of_def get_or_def)
  have "filter (\<lambda>r. Building r = building \<and> Room_Number r = room_number \<and> Day r = day) rows
        = day_rows building room_number schedule day"
    unfolding rows using ok rooms schedule day by (rule rows_of_room_day)
  also have "\<dots> = [\<lparr>Building = building, Room_Number = room_number, Day = day,
             Free_From = ascii ''0930'', Free_To = ascii ''2200''\<rparr>]"
    using none by (simp add: day_rows_def free_times_def strftime_0930 strftime_2200)
  finally show ?thesis .
qed

text \<open>
  One row of the sheet, a lecture on Monday from 09:00 to 10:15 in room 101 of building A:
  the index it gives, and the table.
\<close>

lemmas index_eval = room_eval book_rooms.simps book_column_def put_booked_def booked_of_def
  get_or_def strptime_HM_def strptime_rx_def py_int_def match_here_def lit_def is_digit_def
  extract_room_schedule_def RoomScheduler_def

lemmas rows_eval = empty_rooms_def building_rows_def room_rows_def day_rows_def days_def
  ft_eval strftime_HM_def get_or_def

lemma one_booking_index:
  "extract_room_schedule hangul_ascii (RoomScheduler
     [\<lparr>source = \<lparr>lecture_time = [], passthrough = ()\<rparr>, e_Day = Some [50900],
       e_Free_From = Some (ascii ''09:00''), e_Free_To = Some (ascii ''10:15''),
       e_RoomA = Some ([65, 46041] @ ascii ''101''), e_RoomB = None\<rparr>])
   = Inr \<lparr>df = [\<lparr>source = \<lparr>lecture_time = [], passthrough = ()\<rparr>, e_Day = Some [50900],
            e_Free_From = Some (ascii ''09:00''), e_Free_To = Some (ascii ''10:15''),
            e_RoomA = Some ([65, 46041] @ ascii ''101''), e_RoomB = None\<rparr>],
          room_schedule = [([65, 46041], [(ascii ''101'', [(Some [50900], [(540, 615)])])])]\<rparr>"
  by (simp add: index_eval)

lemma one_booking_rows:
  "find_empty_rooms hangul_ascii (RoomScheduler
     [\<lparr>source = \<lparr>lecture_time = [], passthrough = ()\<rparr>, e_Day = Some [50900],
       e_Free_From = Some (ascii ''09:00''), e_Free_To = Some (ascii ''10:15''),
       e_RoomA = Some ([65, 46041] @ ascii ''101''), e_RoomB = None\<rparr>])
   = Inr (\<lparr>df = [\<lparr>source = \<lparr>lecture_time = [], passthrough = ()\<rparr>, e_Day = Some [50900],
            e_Free_From = Some (ascii ''09:00''), e_Free_To = Some (ascii ''10:15''),
            e_RoomA = Some ([65, 46041] @ ascii ''101''), e_RoomB = None\<rparr>],
          room_schedule = [([65, 46041], [(ascii ''101'', [(Some [50900], [(540, 615)])])])]\<rparr>,
       [\<lparr>Building = [65, 46041], Room_Number = ascii ''101'', Day = [50900],
          Free_From = ascii ''1015'', Free_To = ascii ''2200''\<rparr>,
        \<lparr>Building = [65, 46041], Room_Number = ascii ''101'', Day = [54868],
          Free_From = ascii ''0930'', Free_To = ascii ''2200''\<rparr>,
        \<lparr>Building = [65, 46041], Room_Number = ascii ''101'', Day = [49688],
          Free_From = ascii ''0930'', Free_To = ascii ''2200''\<rparr>,
        \<lparr>Building = [65, 46041], Room_Number = ascii ''101'', Day = [47785],
          Free_From = ascii ''0930'', Free_To = ascii ''2200''\<rparr>,
        \<lparr>Building = [65, 46041], Room_Number = ascii ''101'', Day = [44552],
          Free_From = ascii ''0930'', Free_To = ascii ''2200''\<rparr>,
        \<lparr>Building = [65, 46041], Room_Number = ascii ''101'', Day = [53664],
          Free_From = ascii ''0930'', Free_To = ascii ''2200''\<rparr>])"
  using one_booking_index
  by (simp add: find_empty_rooms_def sort_booked_def rows_eval ascii_def)

theorem empty_day_gives_full_window_witness:
  "find_empty_rooms hangul_ascii (RoomScheduler
     [\<lparr>source = \<lparr>lecture_time = [], passthrough = ()\<rparr>, e_Day = Some [50900],
       e_Free_From = Some (ascii ''09:00''), e_Free_To = Some (ascii ''10:15''),
       e_RoomA = Some ([65, 46041] @ ascii ''101''), e_RoomB = None\<rparr>])
   = Inr (\<lparr>df = [\<lparr>source = \<lparr>lecture_time = [], passthrough = ()\<rparr>, e_Day = Some [50900],
            e_Free_From = Some (ascii ''09:00''), e_Free_To = Some (ascii ''10:15''),
            e_RoomA = Some ([65, 46041] @ ascii ''101''), e_RoomB = None\<rparr>],
          room_schedule = [([65, 46041], [(ascii ''101'', [(Some [50900], [(540, 615)])])])]\<rparr>,
       [\<lparr>Building = [65, 46041], Room_Number = ascii ''101'', Day = [50900],
          Free_From = ascii ''1015'', Free_To = ascii ''2200''\<rparr>,
        \<lparr>Building = [65, 46041], Room_Number = ascii ''101'', Day = [54868],
          Free_From = ascii ''0930'', Free_To = ascii ''2200''\<rparr>,
        \<lparr>Building = [65, 46041], Room_Number = ascii ''101'', Day = [49688],
          Free_From = ascii ''0930'', Free_To = ascii ''2200''\<rparr>,
        \<lparr>Building = [65, 46041], Room_Number = ascii ''101'', Day = [47785],
          Free_From = ascii ''0930'', Free_To = ascii ''2200''\<rparr>,
        \<lparr>Building = [65, 46041], Room_Number = ascii ''101'', Day = [44552],
          Free_From = ascii ''0930'', Free_To = ascii ''2200''\<rparr>,
        \<lparr>Building = [65, 46041], Room_Number = ascii ''101'', Day = [53664],
          Free_From = ascii ''0930'', Free_To = ascii ''2200''\<rparr>])
   \<and> booked_of [([65, 46041], [(ascii ''101'', [(Some [50900], [(540, 615)])])])]
         [65, 46041] (ascii ''101'') (Some [54868]) = []
   \<and> filter (\<lambda>r. Building r = [65, 46041] \<and> Room_Number r = ascii ''101'' \<and> Day r = [54868])
       [\<lparr>Building = [65, 46041], Room_Number = ascii ''101'', Day = [50900],
          Free_From = ascii ''1015'', Free_To = ascii ''2200''\<rparr>,
        \<lparr>Building = [65, 46041], Room_Number = ascii ''101'', Day = [54868],
          Free_From = ascii ''0930'', Free_To = ascii ''2200''\<rparr>,
        \<lparr>Building = [65, 46041], Room_Number = ascii ''101'', Day = [49688],
          Free_From = ascii ''0930'', Free_To = ascii ''2200''\<rparr>,
        \<lparr>Building = [65, 46041], Room_Number = ascii ''101'', Day = [47785],
          Free_From = ascii ''0930'', Free_To = ascii ''2200''\<rparr>,
        \<lparr>Building = [65, 46041], Room_Number = ascii ''101'', Day = [44552],
          Free_From = ascii ''0930'', Free_To = ascii ''2200''\<rparr>,
        \<lparr>Building = [65, 46041], Room_Number = ascii ''101'', Day = [53664],
          Free_From = ascii ''0930'', Free_To = ascii ''2200''\<rparr>]
     = [\<lparr>Building = [65, 46041], Room_Number = ascii ''101'', Day = [54868],
          Free_From = ascii ''0930'', Free_To = ascii ''2200''\<rparr>]"
  using empty_day_gives_full_window[OF one_booking_rows, of "[65, 46041]" "ascii ''101''" "[54868]"]
    one_booking_rows
  by (simp add: booked_of_def get_or_def days_def ascii_def)










section \<open>The consumer of the table\<close>

text \<open>The copy taken at loading is never written by a filter.\<close>

lemma original_kept:
  "original (fold (\<lambda>(day, from_time, to_time, building).
      filter_classrooms day from_time to_time building) calls s) = original s"
  by (induction calls arbitrary: s) (auto simp: filter_classrooms_def)

lemma held_after_filters:
  "held (fold (\<lambda>(day, from_time, to_time, building).
      filter_classrooms day from_time to_time building) calls s)
   = filter (\<lambda>r. list_all (\<lambda>(day, from_time, to_time, building).
        condition day from_time to_time building r) calls) (held s)"
proof (induction calls arbitrary: s)
  case Nil
  then show ?case by simp
next
  case (Cons c calls)
  obtain day from_time to_time building where c: "c = (day, from_time, to_time, building)"
    by (cases c)
  have "held (fold (\<lambda>(day, from_time, to_time, building).
      filter_classrooms day from_time to_time building) calls
        (filter_classrooms day from_time to_time building s))
   = filter (\<lambda>r. list_all (\<lambda>(day, from_time, to_time, building).
        condition day from_time to_time building r) calls)
        (held (filter_classrooms day from_time to_time building s))"
    by (rule Cons.IH)
  then show ?case
    by (simp add: c) (simp add: filter_classrooms_def conj_commute)
qed

text \<open>
  C10. \<open>restore_classrooms\<close> undoes any sequence of \<open>filter_classrooms\<close> calls on a freshly
  loaded schedule. The frame it returns (the frame held afterwards) is the frame loaded at
  construction, and the whole state is the state right after loading, so the next restore
  gives the loaded frame again. Before the restore, the calls have narrowed the frame held
  to the loaded rows that satisfy every call: \<open>Day\<close> equal to the day asked,
  \<open>Free From \<le> from_time\<close>, \<open>Free To \<ge> to_time\<close>, and \<open>Building\<close> equal to the building
  asked where one is given (\<open>None\<close> and the empty string give none). After the restore, a
  further \<open>filter_classrooms\<close> call selects from all the loaded rows.
\<close>

theorem restore_after_filters:
  "held (restore_classrooms
     (fold (\<lambda>(day, from_time, to_time, building). filter_classrooms day from_time to_time building)
        calls (EmptyRoomSchedule loaded))) = loaded
   \<and> restore_classrooms
     (fold (\<lambda>(day, from_time, to_time, building). filter_classrooms day from_time to_time building)
        calls (EmptyRoomSchedule loaded)) = \<lparr>held = loaded, original = loaded\<rparr>
   \<and> held (fold (\<lambda>(day, from_time, to_time, building).
          filter_classrooms day from_time to_time building) calls (EmptyRoomSchedule loaded))
       = filter (\<lambda>r. list_all (\<lambda>(day, from_time, to_time, building).
            Day r = day \<and> Free_From r \<le> from_time \<and> to_time \<le> Free_To r
            \<and> (building = None \<or> building = Some [] \<or> building = Some (Building r))) calls)
          loaded
   \<and> held (filter_classrooms day from_time to_time building
        (restore_classrooms
          (fold (\<lambda>(day, from_time, to_time, building).
             filter_classrooms day from_time to_time building) calls (EmptyRoomSchedule loaded))))
       = filter (\<lambda>r. Day r = day \<and> Free_From r \<le> from_time \<and> to_time \<le> Free_To r
            \<and> (building = None \<or> building = Some [] \<or> building = Some (Building r))) loaded"
proof -
  have cond: "condition d f t b
      = (\<lambda>r :: ('a, int) room_row. Day r = d \<and> Free_From r \<le> f \<and> t \<le> Free_To r
         \<and> (b = None \<or> b = Some [] \<or> b = Some (Building r)))"
    for d f t b
    by (auto simp: fun_eq_iff condition_def split: option.splits)
  have restored: "restore_classrooms
     (fold (\<lambda>(day, from_time, to_time, building). filter_classrooms day from_time to_time building)
        calls (EmptyRoomSchedule loaded)) = \<lparr>held = loaded, original = loaded\<rparr>"
    using original_kept[of calls "EmptyRoomSchedule loaded"]
    by (simp add: restore_classrooms_def EmptyRoomSchedule_def)
  have narrowed: "held (fold (\<lambda>(day, from_time, to_time, building).
          filter_classrooms day from_time to_time building) calls (EmptyRoomSchedule loaded))
       = filter (\<lambda>r. list_all (\<lambda>(day, from_time, to_time, building).
            Day r = day \<and> Free_From r \<le> from_time \<and> to_time \<le> Free_To r
            \<and> (building = None \<or> building = Some [] \<or> building = Some (Building r))) calls)
          loaded"
    by (simp add: held_after_filters cond EmptyRoomSchedule_def)
  show ?thesis
    by (simp only: restored narrowed) (simp add: filter_classrooms_def cond)
qed

end
